theory Spec2Isabelle
  imports Main "HOL-Library.AList" "HOL-Library.Char_ord" "HOL-Library.List_Lexorder"
begin

section \<open>Data model of CodeChecker.py\<close>

text \<open>
  A callee entry of the call graph is a function name or Python's \<open>None\<close>.
  The call graph is a \<open>defaultdict(list)\<close>: a dictionary that keeps its keys in
  insertion order, modelled as an association list with distinct keys.
  A Python \<open>set\<close> of names is modelled as a duplicate-free list; the order of the list
  stands for the iteration order of the set, which Python leaves unspecified, and no
  result below depends on it.
\<close>

type_synonym callee = "string option"
type_synonym call_graph = "(string \<times> callee list) list"
type_synonym pyset = "string list"

abbreviation newline :: string where
  "newline \<equiv> [CHR 0x0A]"

text \<open>\<open>k in d\<close>: membership test, which never inserts.\<close>

definition dd_contains :: "call_graph \<Rightarrow> string \<Rightarrow> bool" where
  "dd_contains cg k = (case map_of cg k of None \<Rightarrow> False | Some vs \<Rightarrow> True)"

text \<open>\<open>d[k]\<close> on a defaultdict: a missing key is inserted with the empty list.\<close>

definition dd_getitem :: "call_graph \<Rightarrow> string \<Rightarrow> callee list \<times> call_graph" where
  "dd_getitem cg k = (case map_of cg k of
                        None \<Rightarrow> ([], cg @ [(k, [])])
                      | Some vs \<Rightarrow> (vs, cg))"

text \<open>\<open>d[k] = v\<close>: an existing key keeps its position, a new key goes last.\<close>

definition dd_setitem :: "call_graph \<Rightarrow> string \<Rightarrow> callee list \<Rightarrow> call_graph" where
  "dd_setitem cg k v = AList.update k v cg"

text \<open>\<open>d[k].append(v)\<close>.\<close>

definition dd_append :: "call_graph \<Rightarrow> string \<Rightarrow> callee \<Rightarrow> call_graph" where
  "dd_append cg k v = (case dd_getitem cg k of (vs, cg') \<Rightarrow> AList.update k (vs @ [v]) cg')"

text \<open>\<open>s.add(x)\<close> on a set.\<close>

definition set_add :: "'a list \<Rightarrow> 'a \<Rightarrow> 'a list" where
  "set_add s x = (if x \<in> set s then s else s @ [x])"

text \<open>\<open>s.update(xs)\<close> on a set.\<close>

definition set_update :: "'a list \<Rightarrow> 'a list \<Rightarrow> 'a list" where
  "set_update s xs = fold (\<lambda>x acc. set_add acc x) xs s"

section \<open>The graph printer\<close>

text \<open>
  \<open>print_call_graph\<close> writes to standard output and reads the call graph, a shared
  mutable object; both are threaded as state. Python bounds the depth of recursion: a
  call made beyond the bound raises \<open>RecursionError\<close>, which nothing in the program
  catches. The first argument is the depth bound: the number of nested activations of
  \<open>print_call_graph\<close> that can still print and descend. How it relates to the recursion
  limit of an interpreter depends on that interpreter and on the frames already in use,
  so only statements that hold for every bound, or for every bound from some value on,
  are made about it. The state at the moment of the error is kept so that the output
  printed so far can be observed.
\<close>

datatype error = RecursionError

record pstate =
  graph :: call_graph
  out :: string

definition emit :: "string \<Rightarrow> pstate \<Rightarrow> pstate" where
  "emit txt s = s\<lparr>out := out s @ txt\<rparr>"

text \<open>\<open>len(call_graph[start_func])\<close>, evaluated anew in each iteration of the loop.\<close>

definition len_entry :: "string \<Rightarrow> pstate \<Rightarrow> nat \<times> pstate" where
  "len_entry k s = (case dd_getitem (graph s) k of (vs, cg') \<Rightarrow> (length vs, s\<lparr>graph := cg'\<rparr>))"

text \<open>The text printed for one callee, before descending into it.\<close>

definition print_callee :: "string \<Rightarrow> callee \<Rightarrow> nat \<Rightarrow> pstate \<Rightarrow> pstate" where
  "print_callee start_func c lenght s =
     (case len_entry start_func s of (n, s1) \<Rightarrow>
        let s2 = (if n > 1 then emit (newline @ replicate lenght CHR '' '' @ ''|'') s1 else s1)
        in (case c of
              None \<Rightarrow> emit ''-> None'' s2
            | Some name \<Rightarrow> emit (''-> '' @ name @ ''()'') s2))"

fun print_call_graph :: "nat \<Rightarrow> callee \<Rightarrow> nat \<Rightarrow> pstate \<Rightarrow> (error \<times> pstate) + pstate"
and print_callees :: "nat \<Rightarrow> string \<Rightarrow> callee list \<Rightarrow> nat \<Rightarrow> pstate \<Rightarrow> (error \<times> pstate) + pstate"
where
  "print_call_graph 0 start_func lenght s = Inl (RecursionError, s)"
| "print_call_graph (Suc fuel) None lenght s = Inr s"
| "print_call_graph (Suc fuel) (Some start_func) lenght s =
     (let lenght' = lenght + (length start_func + 2) in
      if dd_contains (graph s) start_func
      then (case dd_getitem (graph s) start_func of (vs, cg') \<Rightarrow>
              print_callees fuel start_func vs lenght' (s\<lparr>graph := cg'\<rparr>))
      else Inr s)"
| "print_callees fuel start_func [] lenght s = Inr s"
| "print_callees fuel start_func (c # cs) lenght s =
     (case print_call_graph fuel c lenght (print_callee start_func c lenght s) of
        Inl e \<Rightarrow> Inl e
      | Inr s' \<Rightarrow> print_callees fuel start_func cs lenght s')"

section \<open>The root finder\<close>

text \<open>
  \<open>all_called\<close> is a set of callee entries (names and \<open>None\<close>); the result lists the
  keys of the dictionary, in their order, that are not in it.
\<close>

definition all_called :: "call_graph \<Rightarrow> callee list" where
  "all_called cg = fold (\<lambda>callees acc. set_update acc callees) (map snd cg) []"

definition find_root_functions :: "call_graph \<Rightarrow> string list" where
  "find_root_functions cg = filter (\<lambda>f. Some f \<notin> set (all_called cg)) (map fst cg)"

section \<open>The call graph builder\<close>

text \<open>
  The cursor of the AST provider, with the attributes the builder reads:
  \<open>kind\<close>, \<open>spelling\<close>, \<open>location.file\<close> (its name, or \<open>None\<close>),
  \<open>semantic_parent.spelling\<close>, \<open>type.spelling\<close> and \<open>get_children()\<close>.
  Only the cursor kinds the builder compares against are told apart.
\<close>

datatype CursorKind = FUNCTION_DECL | CXX_METHOD | CALL_EXPR | MEMBER_REF_EXPR | OTHER_KIND

datatype node = Node (kind: CursorKind) (spelling: string) (location_file: "string option")
  (semantic_parent_spelling: string) (type_spelling: string) (get_children: "node list")

definition startswith :: "string \<Rightarrow> string \<Rightarrow> bool" where
  "startswith s p = (take (length p) s = p)"

text \<open>\<open>p in s\<close> on strings: \<open>p\<close> occurs in \<open>s\<close> as a contiguous substring.\<close>

fun str_contains :: "string \<Rightarrow> string \<Rightarrow> bool" where
  "str_contains p [] = (p = [])"
| "str_contains p (c # cs) = (startswith (c # cs) p \<or> str_contains p cs)"

text \<open>
  The \<open>except\<close> branch of \<open>is_system_header\<close> answers \<open>False\<close> when reading the
  attributes raises; on a cursor whose attributes are values it is never taken.
\<close>

definition is_system_header :: "node \<Rightarrow> bool" where
  "is_system_header cursor =
     (case location_file cursor of
        None \<Rightarrow> True
      | Some name \<Rightarrow> startswith name ''/usr/include'' \<or> startswith name ''/usr/lib''
                     \<or> str_contains ''/lib/gcc'' name)"

text \<open>The truth value of an enumeration member such as \<open>CursorKind.CXX_METHOD\<close>.\<close>

definition kind_truthy :: "CursorKind \<Rightarrow> bool" where
  "kind_truthy k = True"

text \<open>
  Lines 111 to 121: the update of the enclosing function and its registration. The outer
  condition is \<open>node.kind == FUNCTION_DECL or CXX_METHOD\<close>, whose second operand is the
  enumeration member itself.
\<close>

definition enter_node :: "node \<Rightarrow> string option \<Rightarrow> pyset \<Rightarrow> string option \<times> pyset" where
  "enter_node n current_func all_functions =
     (if kind n = FUNCTION_DECL \<or> kind_truthy CXX_METHOD then
        (let current_func' =
               (if kind n = CXX_METHOD then Some (semantic_parent_spelling n @ ''::'' @ spelling n)
                else if kind n = FUNCTION_DECL then Some (spelling n)
                else current_func)
         in (current_func',
             case current_func' of
               None \<Rightarrow> all_functions
             | Some name \<Rightarrow> if name \<noteq> [] then set_add all_functions name else all_functions))
      else (current_func, all_functions))"

text \<open>
  Lines 130 to 139: the edges recorded for one call expression. The loop over the
  children of the call stops at the first member reference, after appending one edge for
  each child of that member reference; the \<open>else\<close> of the loop runs when no member
  reference was met.
\<close>

definition record_call :: "string \<Rightarrow> node \<Rightarrow> call_graph \<Rightarrow> call_graph" where
  "record_call current_func child cg =
     (case find (\<lambda>gc. kind gc = MEMBER_REF_EXPR) (get_children child) of
        Some gc \<Rightarrow>
          fold (\<lambda>cxx acc. dd_append acc current_func (Some (type_spelling cxx @ ''::'' @ spelling gc)))
               (get_children gc) cg
      | None \<Rightarrow> dd_append cg current_func (Some (spelling child)))"

fun build_call_graph :: "node \<Rightarrow> string option \<Rightarrow> call_graph \<times> pyset \<Rightarrow> call_graph \<times> pyset"
and build_children :: "node list \<Rightarrow> string option \<Rightarrow> call_graph \<times> pyset \<Rightarrow> call_graph \<times> pyset"
where
  "build_call_graph (Node k sp lf par ty cs) current_func (cg, fs) =
     (case enter_node (Node k sp lf par ty cs) current_func fs of
        (current_func', fs') \<Rightarrow> build_children cs current_func' (cg, fs'))"
| "build_children [] current_func st = st"
| "build_children (child # rest) current_func (cg, fs) =
     (if is_system_header child then build_children rest current_func (cg, fs)
      else
        (let cg' = (case current_func of
                      None \<Rightarrow> cg
                    | Some name \<Rightarrow>
                        if name \<noteq> [] \<and> kind child = CALL_EXPR then record_call name child cg
                        else cg)
         in build_children rest current_func (build_call_graph child current_func (cg', fs))))"

section \<open>The main program\<close>

text \<open>
  One entry of the compile commands as the loop of the main program sees it: the path,
  what \<open>parse_with_compile_commands\<close> prints while it loads the flags, and the answer
  of the AST provider, which is either the message of a \<open>TranslationUnitLoadError\<close> or
  the cursor of the translation unit.
\<close>

record unit_input =
  cpp_file :: string
  flags_log :: string
  parsed :: "string + node"

record mstate =
  global_call_graph :: call_graph
  all_functions :: pyset
  console :: string

text \<open>
  Lines 199 to 202. Reading \<open>call_graph[func]\<close> goes through the defaultdict of the
  unit, which is threaded beside the global one; \<open>merge_step\<close> is the body of the loop
  over \<open>funcs\<close>.
\<close>

definition merge_step :: "string \<Rightarrow> call_graph \<times> call_graph \<Rightarrow> call_graph \<times> call_graph" where
  "merge_step = (\<lambda>func (g, u). case dd_getitem u func of (vs, u') \<Rightarrow> (dd_setitem g func vs, u'))"

definition merge_unit :: "call_graph \<Rightarrow> pyset \<Rightarrow> mstate \<Rightarrow> mstate" where
  "merge_unit unit_graph funcs m =
     (case fold merge_step funcs (global_call_graph m, unit_graph) of
        (g, u) \<Rightarrow> m\<lparr>global_call_graph := g, all_functions := set_update (all_functions m) funcs\<rparr>)"

text \<open>Lines 195 to 204: the body of the loop over the source files.\<close>

definition process_unit :: "unit_input \<Rightarrow> mstate \<Rightarrow> mstate" where
  "process_unit u m =
     (let m1 = m\<lparr>console := console m @ cpp_file u @ newline @ flags_log u\<rparr> in
      case parsed u of
        Inl e \<Rightarrow> m1\<lparr>console := console m1 @ ''Error parsing '' @ cpp_file u @ '': '' @ e @ newline\<rparr>
      | Inr cursor \<Rightarrow>
          (case build_call_graph cursor None ([], []) of
             (unit_graph, funcs) \<Rightarrow> merge_unit unit_graph funcs m1))"

definition process_units :: "unit_input list \<Rightarrow> mstate \<Rightarrow> mstate" where
  "process_units units m = fold process_unit units m"

definition initial_state :: mstate where
  "initial_state = \<lparr>global_call_graph = [], all_functions = [], console = []\<rparr>"

text \<open>Lines 213 to 216: the leaf normalization, over the sorted names.\<close>

definition normalize_step :: "string \<Rightarrow> call_graph \<Rightarrow> call_graph" where
  "normalize_step func g =
     (case dd_getitem g func of (vs, g') \<Rightarrow> if length vs = 0 then dd_append g' func None else g')"

definition normalize_leaves :: "mstate \<Rightarrow> mstate" where
  "normalize_leaves m =
     m\<lparr>global_call_graph := fold normalize_step (sort (all_functions m)) (global_call_graph m)\<rparr>"

text \<open>Lines 224 to 229: the loop over the roots.\<close>

fun render_roots :: "nat \<Rightarrow> string list \<Rightarrow> pstate \<Rightarrow> (error \<times> pstate) + pstate" where
  "render_roots fuel [] s = Inr s"
| "render_roots fuel (root_func # rest) s =
     (case print_call_graph fuel (Some root_func) 0 (emit (newline @ root_func @ ''()'') s) of
        Inl e \<Rightarrow> Inl e
      | Inr s' \<Rightarrow> render_roots fuel rest s')"

text \<open>
  Lines 191 to 230, from the empty accumulators to the last \<open>print\<close>. The result is the
  state at exit, or the uncaught error with the state it left.
\<close>

definition main_core :: "nat \<Rightarrow> unit_input list \<Rightarrow> (error \<times> mstate) + mstate" where
  "main_core fuel units =
     (let m = process_units units initial_state in
      if sort (all_functions m) = []
      then Inr (m\<lparr>console := console m @ ''No functions found in the file.'' @ newline\<rparr>)
      else
        (let m' = normalize_leaves m;
             root_funcs = find_root_functions (global_call_graph m')
         in if root_funcs = []
            then Inr (m'\<lparr>console := console m' @ ''No root functions found.'' @ newline @ newline\<rparr>)
            else
              (case render_roots fuel root_funcs
                      \<lparr>graph = global_call_graph m', out = console m' @ newline @ ''Call graph:''\<rparr> of
                 Inl (e, s) \<Rightarrow> Inl (e, m'\<lparr>global_call_graph := graph s, console := out s\<rparr>)
               | Inr s \<Rightarrow> Inr (m'\<lparr>global_call_graph := graph s, console := out s @ newline\<rparr>))))"

section \<open>Auxiliary notions for the statements\<close>

text \<open>The state a run of the printer leaves, whether it returned or raised.\<close>

definition final_state :: "(error \<times> pstate) + pstate \<Rightarrow> pstate" where
  "final_state r = (case r of Inl (e, s) \<Rightarrow> s | Inr s \<Rightarrow> s)"

text \<open>The mutual-recursion graph: \<open>A\<close> calls \<open>B\<close> and \<open>B\<close> calls \<open>A\<close>.\<close>

definition mutual :: call_graph where
  "mutual = [(''A'', [Some ''B'']), (''B'', [Some ''A''])]"

text \<open>
  \<open>bounce n to_b\<close> is the text of \<open>n\<close> arrows that name \<open>B\<close> and \<open>A\<close> in turn, the
  first one naming \<open>B\<close> when \<open>to_b\<close> holds.
\<close>

fun bounce :: "nat \<Rightarrow> bool \<Rightarrow> string" where
  "bounce 0 to_b = []"
| "bounce (Suc n) to_b = (if to_b then ''-> B()'' else ''-> A()'') @ bounce n (\<not> to_b)"

text \<open>The edge list of a key, an absent key read as the empty list.\<close>

definition entry :: "call_graph \<Rightarrow> string \<Rightarrow> callee list" where
  "entry cg k = (case map_of cg k of None \<Rightarrow> [] | Some vs \<Rightarrow> vs)"

text \<open>
  The pieces of text the printer can put out: a line break followed by an indentation
  and a bar, and an arrow to a callee entry, which is \<open>-> None\<close> or \<open>-> name()\<close>. A
  piece is admitted for a graph when its callee entry, if any, occurs in an edge list of
  the graph.
\<close>

datatype piece = Bar nat | Arrow callee

fun piece_text :: "piece \<Rightarrow> string" where
  "piece_text (Bar k) = newline @ replicate k CHR '' '' @ ''|''"
| "piece_text (Arrow None) = ''-> None''"
| "piece_text (Arrow (Some name)) = ''-> '' @ name @ ''()''"

definition pieces_text :: "piece list \<Rightarrow> string" where
  "pieces_text ps = concat (map piece_text ps)"

definition piece_ok :: "call_graph \<Rightarrow> piece \<Rightarrow> bool" where
  "piece_ok cg p = (case p of Bar k \<Rightarrow> True | Arrow c \<Rightarrow> c \<in> set (concat (map snd cg)))"

text \<open>
  The edges that the loop of lines 130 to 139 appends for one call expression: one for
  each child of the first member reference among the children of the call, or else the
  spelling of the call.
\<close>

definition call_edges :: "node \<Rightarrow> callee list" where
  "call_edges child =
     (case find (\<lambda>gc. kind gc = MEMBER_REF_EXPR) (get_children child) of
        Some gc \<Rightarrow> map (\<lambda>cxx. Some (type_spelling cxx @ ''::'' @ spelling gc)) (get_children gc)
      | None \<Rightarrow> [Some (spelling child)])"

text \<open>The two accumulators of the main loop, without the console.\<close>

definition accumulators :: "mstate \<Rightarrow> call_graph \<times> pyset" where
  "accumulators m = (global_call_graph m, all_functions m)"

text \<open>
  The functions that the units of a list declare, unit by unit, a unit that failed to
  parse declaring none; and the entry that a list of units leaves for a function \<open>f\<close>
  when each unit that declares \<open>f\<close> replaces the entry by its own edge list.
\<close>

definition declared_functions :: "unit_input list \<Rightarrow> string list" where
  "declared_functions units =
     concat (map (\<lambda>u. case parsed u of
                         Inl e \<Rightarrow> []
                       | Inr cursor \<Rightarrow> snd (build_call_graph cursor None ([], []))) units)"

fun last_writer :: "unit_input list \<Rightarrow> string \<Rightarrow> callee list option \<Rightarrow> callee list option" where
  "last_writer [] f acc = acc"
| "last_writer (u # us) f acc =
     last_writer us f
       (case parsed u of
          Inl e \<Rightarrow> acc
        | Inr cursor \<Rightarrow>
            (case build_call_graph cursor None ([], []) of
               (cg, fs) \<Rightarrow> if f \<in> set fs then Some (entry cg f) else acc))"

text \<open>The state after all units are merged and the leaves are normalized.\<close>

definition analysed :: "unit_input list \<Rightarrow> mstate" where
  "analysed units = normalize_leaves (process_units units initial_state)"


text \<open>What a run has printed, whether it ended normally or not, and its lines.\<close>

definition console_of :: "(error \<times> mstate) + mstate \<Rightarrow> string" where
  "console_of r = (case r of Inl (e, m) \<Rightarrow> console m | Inr m \<Rightarrow> console m)"

fun lines_from :: "string \<Rightarrow> string \<Rightarrow> string list" where
  "lines_from cur [] = (if cur = [] then [] else [cur])"
| "lines_from cur (c # cs) = (if c = CHR 0x0A then cur # lines_from [] cs else lines_from (cur @ [c]) cs)"

definition splitlines :: "string \<Rightarrow> string list" where
  "splitlines txt = lines_from [] txt"

section \<open>Fixtures\<close>

text \<open>
  A translation unit in which \<open>main\<close> calls \<open>helper\<close>, \<open>helper\<close> calls the method
  \<open>run\<close> on an object of type \<open>Widget\<close>, and \<open>Widget::run\<close> calls nothing.
\<close>

definition scenario_ast :: node where
  "scenario_ast =
     Node OTHER_KIND ''demo.cpp'' None [] []
       [Node OTHER_KIND ''Widget'' (Some ''demo.cpp'') [] ''Widget''
          [Node CXX_METHOD ''run'' (Some ''demo.cpp'') ''Widget'' ''void ()''
             [Node OTHER_KIND [] (Some ''demo.cpp'') [] [] []]],
        Node FUNCTION_DECL ''helper'' (Some ''demo.cpp'') [] ''void ()''
          [Node OTHER_KIND [] (Some ''demo.cpp'') [] []
             [Node CALL_EXPR ''run'' (Some ''demo.cpp'') [] ''void''
                [Node MEMBER_REF_EXPR ''run'' (Some ''demo.cpp'') [] ''<bound member function type>''
                   [Node OTHER_KIND ''w'' (Some ''demo.cpp'') [] ''Widget'' []]]]],
        Node FUNCTION_DECL ''main'' (Some ''demo.cpp'') [] ''int ()''
          [Node OTHER_KIND [] (Some ''demo.cpp'') [] []
             [Node CALL_EXPR ''helper'' (Some ''demo.cpp'') [] ''void''
                [Node OTHER_KIND ''helper'' (Some ''demo.cpp'') [] ''void (*)()''
                   [Node OTHER_KIND ''helper'' (Some ''demo.cpp'') [] ''void ()'' []]]]]]"

definition scenario_unit :: unit_input where
  "scenario_unit = \<lparr>cpp_file = ''demo.cpp'', flags_log = ''args: []'' @ newline,
                     parsed = Inr scenario_ast\<rparr>"

text \<open>A declaration that comes from a system header, beside one of the user.\<close>

definition system_child :: node where
  "system_child =
     Node FUNCTION_DECL ''printf'' (Some ''/usr/include/stdio.h'') [] ''int (const char *, ...)''
       [Node OTHER_KIND [] (Some ''/usr/include/stdio.h'') [] []
          [Node CALL_EXPR ''vfprintf'' (Some ''/usr/include/stdio.h'') [] ''int'' []]]"

definition user_function :: node where
  "user_function = Node FUNCTION_DECL ''main'' (Some ''demo.cpp'') [] ''int ()'' []"

text \<open>
  A method that calls another method of its own object: the member reference has no
  child, the object being implicit. Then a member reference with two children.
\<close>

definition implicit_this_ast :: node where
  "implicit_this_ast =
     Node CXX_METHOD ''f'' (Some ''w.cpp'') ''W'' ''void ()''
       [Node OTHER_KIND [] (Some ''w.cpp'') [] []
          [Node CALL_EXPR ''g'' (Some ''w.cpp'') [] ''void''
             [Node MEMBER_REF_EXPR ''g'' (Some ''w.cpp'') [] ''<bound member function type>'' []]]]"

definition two_operand_ast :: node where
  "two_operand_ast =
     Node FUNCTION_DECL ''f'' (Some ''w.cpp'') [] ''void ()''
       [Node OTHER_KIND [] (Some ''w.cpp'') [] []
          [Node CALL_EXPR ''g'' (Some ''w.cpp'') [] ''void''
             [Node MEMBER_REF_EXPR ''g'' (Some ''w.cpp'') [] ''<bound member function type>''
                [Node OTHER_KIND ''a'' (Some ''w.cpp'') [] ''P'' [],
                 Node OTHER_KIND ''b'' (Some ''w.cpp'') [] ''Q'' []]]]]"

text \<open>A function declaration whose spelling is empty, and a method declaration.\<close>

definition nameless_function :: node where
  "nameless_function = Node FUNCTION_DECL [] (Some ''a.c'') [] ''void ()'' []"

definition method_node :: node where
  "method_node = Node CXX_METHOD ''run'' (Some ''demo.cpp'') ''Widget'' ''void ()'' []"

text \<open>
  A unit whose only function \<open>f\<close> calls the given target, and a unit that the AST
  provider fails to load.
\<close>

definition ast_calling :: "string \<Rightarrow> node" where
  "ast_calling target =
     Node OTHER_KIND ''unit.cpp'' None [] []
       [Node FUNCTION_DECL ''f'' (Some ''unit.cpp'') [] ''void ()''
          [Node CALL_EXPR target (Some ''unit.cpp'') [] ''void'' []]]"

definition unit_calling :: "string \<Rightarrow> unit_input" where
  "unit_calling target = \<lparr>cpp_file = target @ ''.cpp'', flags_log = ''args: []'' @ newline,
                           parsed = Inr (ast_calling target)\<rparr>"

definition broken_unit :: unit_input where
  "broken_unit = \<lparr>cpp_file = ''broken.cpp'', flags_log = ''args: []'' @ newline,
                   parsed = Inl ''Error parsing translation unit.''\<rparr>"

section \<open>The printer: frame and recursion\<close>

lemma dd_getitem_present: "dd_contains cg k \<Longrightarrow> snd (dd_getitem cg k) = cg"
  by (simp add: dd_contains_def dd_getitem_def split: option.splits)

lemma print_callee_graph: "dd_contains (graph s) k \<Longrightarrow> graph (print_callee k c l s) = graph s"
  using dd_getitem_present [of "graph s" k]
  by (auto simp add: print_callee_def len_entry_def emit_def Let_def
      split: prod.splits option.splits)

lemma printer_frame:
  "graph (final_state (print_call_graph fuel c l s)) = graph s"
  "dd_contains (graph s) k \<Longrightarrow> graph (final_state (print_callees fuel k cs l s)) = graph s"
proof (induction fuel c l s and fuel k cs l s rule: print_call_graph_print_callees.induct)
  case (1 start_func lenght s)
  show ?case by (simp add: final_state_def)
next
  case (2 fuel lenght s)
  show ?case by (simp add: final_state_def)
next
  case (3 fuel start_func lenght s)
  show ?case
  proof (cases "dd_contains (graph s) start_func")
    case True
    obtain vs cg' where g: "dd_getitem (graph s) start_func = (vs, cg')"
      by (cases "dd_getitem (graph s) start_func")
    with dd_getitem_present [OF True] have cg': "cg' = graph s" by simp
    have "graph (final_state (print_callees fuel start_func vs
              (lenght + (length start_func + 2)) (s\<lparr>graph := cg'\<rparr>))) = graph (s\<lparr>graph := cg'\<rparr>)"
      using 3 [OF refl True g [symmetric]] True cg' by simp
    then show ?thesis using True g cg' by (simp add: Let_def)
  next
    case False
    then show ?thesis by (simp add: final_state_def Let_def)
  qed
next
  case (4 fuel start_func lenght s)
  show ?case by (simp add: final_state_def)
next
  case (5 fuel start_func c cs lenght s)
  let ?s1 = "print_callee start_func c lenght s"
  have g1: "graph ?s1 = graph s" using 5 by (simp add: print_callee_graph)
  have ih1: "graph (final_state (print_call_graph fuel c lenght ?s1)) = graph s"
    using "5.IH"(1) g1 by simp
  show ?case
  proof (cases "print_call_graph fuel c lenght ?s1")
    case (Inl e)
    then show ?thesis using ih1 by (simp add: final_state_def)
  next
    case (Inr s')
    then have "graph s' = graph s" using ih1 by (simp add: final_state_def)
    then show ?thesis using "5.IH"(2) [OF Inr] "5.prems" Inr by simp
  qed
qed

lemma mutual_step_A:
  "print_call_graph (Suc n) (Some ''A'') l \<lparr>graph = mutual, out = printed\<rparr>
     = (case print_call_graph n (Some ''B'') (l + (length ''A'' + 2))
               \<lparr>graph = mutual, out = printed @ ''-> B()''\<rparr> of
          Inl e \<Rightarrow> Inl e | Inr s' \<Rightarrow> Inr s')"
  by (simp add: mutual_def dd_contains_def dd_getitem_def print_callee_def len_entry_def
      emit_def Let_def split: sum.splits)

lemma mutual_step_B:
  "print_call_graph (Suc n) (Some ''B'') l \<lparr>graph = mutual, out = printed\<rparr>
     = (case print_call_graph n (Some ''A'') (l + (length ''B'' + 2))
               \<lparr>graph = mutual, out = printed @ ''-> A()''\<rparr> of
          Inl e \<Rightarrow> Inl e | Inr s' \<Rightarrow> Inr s')"
  by (simp add: mutual_def dd_contains_def dd_getitem_def print_callee_def len_entry_def
      emit_def Let_def split: sum.splits)

lemma mutual_bounce:
  "print_call_graph n (Some (if to_b then ''A'' else ''B'')) l \<lparr>graph = mutual, out = printed\<rparr>
     = Inl (RecursionError, \<lparr>graph = mutual, out = printed @ bounce n to_b\<rparr>)"
proof (induction n arbitrary: to_b l printed)
  case 0
  show ?case by simp
next
  case (Suc n)
  show ?case
  proof (cases to_b)
    case True
    have "print_call_graph n (Some ''B'') (l + (length ''A'' + 2))
            \<lparr>graph = mutual, out = printed @ ''-> B()''\<rparr>
          = Inl (RecursionError, \<lparr>graph = mutual, out = (printed @ ''-> B()'') @ bounce n False\<rparr>)"
      using Suc [of False] by simp
    then have "print_call_graph (Suc n) (Some ''A'') l \<lparr>graph = mutual, out = printed\<rparr>
          = Inl (RecursionError, \<lparr>graph = mutual, out = printed @ bounce (Suc n) True\<rparr>)"
      by (simp only: mutual_step_A) simp
    then show ?thesis using True by simp
  next
    case False
    have "print_call_graph n (Some ''A'') (l + (length ''B'' + 2))
            \<lparr>graph = mutual, out = printed @ ''-> A()''\<rparr>
          = Inl (RecursionError, \<lparr>graph = mutual, out = (printed @ ''-> A()'') @ bounce n True\<rparr>)"
      using Suc [of True] by simp
    then have "print_call_graph (Suc n) (Some ''B'') l \<lparr>graph = mutual, out = printed\<rparr>
          = Inl (RecursionError, \<lparr>graph = mutual, out = printed @ bounce (Suc n) False\<rparr>)"
      by (simp only: mutual_step_B) simp
    then show ?thesis using False by simp
  qed
qed

lemma trap_callees:
  assumes step: "\<And>g l s'. g \<in> C \<Longrightarrow> graph s' = cg \<Longrightarrow> isl (print_call_graph n (Some g) l s')"
    and present: "dd_contains cg f"
  shows "graph s = cg \<Longrightarrow> \<exists>g\<in>C. Some g \<in> set cs \<Longrightarrow> isl (print_callees n f cs l s)"
proof (induction cs arbitrary: s)
  case Nil
  then show ?case by simp
next
  case (Cons c cs)
  let ?s1 = "print_callee f c l s"
  have g1: "graph ?s1 = cg" using Cons.prems(1) present by (simp add: print_callee_graph)
  show ?case
  proof (cases "print_call_graph n c l ?s1")
    case (Inl e)
    then show ?thesis by simp
  next
    case (Inr s')
    have "graph (final_state (print_call_graph n c l ?s1)) = graph ?s1" by (rule printer_frame(1))
    then have g': "graph s' = cg" using Inr g1 by (simp add: final_state_def)
    have "\<not> (\<exists>g\<in>C. c = Some g)"
    proof
      assume "\<exists>g\<in>C. c = Some g"
      then obtain g where "g \<in> C" "c = Some g" by blast
      then have "isl (print_call_graph n c l ?s1)" using step [OF _ g1] by simp
      then show False using Inr by simp
    qed
    then have "\<exists>g\<in>C. Some g \<in> set cs" using Cons.prems(2) by auto
    then have "isl (print_callees n f cs l s')" using Cons.IH [OF g'] by simp
    then show ?thesis using Inr by simp
  qed
qed

lemma trap_never_returns:
  assumes trap: "\<forall>f\<in>C. \<exists>g\<in>C. Some g \<in> set (entry cg f)"
  shows "start \<in> C \<Longrightarrow> graph s = cg \<Longrightarrow> isl (print_call_graph n (Some start) l s)"
proof (induction n arbitrary: start l s)
  case 0
  show ?case by simp
next
  case (Suc n)
  from trap Suc.prems(1) obtain g where g: "g \<in> C" "Some g \<in> set (entry cg start)" by blast
  then obtain vs where vs: "map_of cg start = Some vs" "entry cg start = vs"
    by (cases "map_of cg start") (simp_all add: entry_def)
  have present: "dd_contains cg start" using vs by (simp add: dd_contains_def)
  have get: "dd_getitem cg start = (vs, cg)" using vs by (simp add: dd_getitem_def)
  have "isl (print_callees n start vs (l + (length start + 2)) (s\<lparr>graph := cg\<rparr>))"
  proof (rule trap_callees [where C = C and cg = cg])
    show "isl (print_call_graph n (Some g') l' s')" if "g' \<in> C" "graph s' = cg" for g' l' s'
      using that by (rule Suc.IH)
    show "dd_contains cg start" by (rule present)
    show "graph (s\<lparr>graph := cg\<rparr>) = cg" by simp
    show "\<exists>g\<in>C. Some g \<in> set vs" using g vs by blast
  qed
  then show ?case using Suc.prems(2) present get by (simp add: Let_def)
qed

lemma dd_getitem_entry: "fst (dd_getitem u k) = entry u k"
  by (simp add: dd_getitem_def entry_def split: option.splits)

lemma entry_known: "c \<in> set (entry cg f) \<Longrightarrow> c \<in> set (concat (map snd cg))"
proof (cases "map_of cg f")
  case None
  assume "c \<in> set (entry cg f)"
  then show ?thesis using None by (simp add: entry_def)
next
  case (Some vs)
  assume "c \<in> set (entry cg f)"
  then have "c \<in> set vs" using Some by (simp add: entry_def)
  moreover have "(f, vs) \<in> set cg" using Some by (rule map_of_SomeD)
  ultimately show ?thesis by force
qed

lemma print_callee_pieces:
  assumes "dd_contains (graph s) f" and "c \<in> set (entry (graph s) f)"
  shows "\<exists>ps. out (print_callee f c l s) = out s @ pieces_text ps \<and> list_all (piece_ok (graph s)) ps"
proof -
  obtain vs where vs: "map_of (graph s) f = Some vs"
    using assms(1) by (cases "map_of (graph s) f") (simp_all add: dd_contains_def)
  have ok: "piece_ok (graph s) (Arrow c)"
    using entry_known [OF assms(2)] by (simp add: piece_ok_def)
  have shape: "piece_text (Arrow c) = (case c of None \<Rightarrow> ''-> None'' | Some name \<Rightarrow> ''-> '' @ name @ ''()'')"
    by (cases c) simp_all
  show ?thesis
  proof (cases "length vs > 1")
    case True
    have "out (print_callee f c l s) = out s @ pieces_text [Bar l, Arrow c]"
      using vs True shape
      by (cases c) (simp_all add: print_callee_def len_entry_def dd_getitem_def emit_def pieces_text_def)
    moreover have "list_all (piece_ok (graph s)) [Bar l, Arrow c]"
      using ok by (simp add: piece_ok_def)
    ultimately show ?thesis by blast
  next
    case False
    have "out (print_callee f c l s) = out s @ pieces_text [Arrow c]"
      using vs False shape
      by (cases c) (simp_all add: print_callee_def len_entry_def dd_getitem_def emit_def pieces_text_def)
    moreover have "list_all (piece_ok (graph s)) [Arrow c]"
      using ok by simp
    ultimately show ?thesis by blast
  qed
qed

lemma pieces_text_append: "pieces_text (ps @ qs) = pieces_text ps @ pieces_text qs"
  by (simp add: pieces_text_def)

lemma printer_pieces:
  "\<exists>ps. out (final_state (print_call_graph fuel c l s)) = out s @ pieces_text ps
        \<and> list_all (piece_ok (graph s)) ps"
  "dd_contains (graph s) f \<Longrightarrow> set cs \<subseteq> set (entry (graph s) f) \<Longrightarrow>
   \<exists>ps. out (final_state (print_callees fuel f cs l s)) = out s @ pieces_text ps
        \<and> list_all (piece_ok (graph s)) ps"
proof (induction fuel c l s and fuel f cs l s rule: print_call_graph_print_callees.induct)
  case (1 start_func lenght s)
  have "out (final_state (print_call_graph 0 start_func lenght s)) = out s @ pieces_text []"
    by (simp add: final_state_def pieces_text_def)
  then show ?case by (intro exI [of _ "[]"]) simp
next
  case (2 fuel lenght s)
  have "out (final_state (print_call_graph (Suc fuel) None lenght s)) = out s @ pieces_text []"
    by (simp add: final_state_def pieces_text_def)
  then show ?case by (intro exI [of _ "[]"]) simp
next
  case (3 fuel start_func lenght s)
  show ?case
  proof (cases "dd_contains (graph s) start_func")
    case True
    obtain vs cg' where g: "dd_getitem (graph s) start_func = (vs, cg')"
      by (cases "dd_getitem (graph s) start_func")
    with dd_getitem_present [OF True] have cg': "cg' = graph s" by simp
    have vs: "vs = entry (graph s) start_func"
      using g dd_getitem_entry [of "graph s" start_func] by simp
    have same: "s\<lparr>graph := cg'\<rparr> = s" using cg' by simp
    have "\<exists>ps. out (final_state (print_callees fuel start_func vs
                     (lenght + (length start_func + 2)) (s\<lparr>graph := cg'\<rparr>)))
                = out (s\<lparr>graph := cg'\<rparr>) @ pieces_text ps
              \<and> list_all (piece_ok (graph (s\<lparr>graph := cg'\<rparr>))) ps"
      using 3 [OF refl True g [symmetric]] True vs same by simp
    then show ?thesis using True g same by (simp add: Let_def)
  next
    case False
    have "out (final_state (print_call_graph (Suc fuel) (Some start_func) lenght s))
            = out s @ pieces_text []"
      using False by (simp add: final_state_def pieces_text_def Let_def)
    then show ?thesis by (intro exI [of _ "[]"]) simp
  qed
next
  case (4 fuel start_func lenght s)
  have "out (final_state (print_callees fuel start_func [] lenght s)) = out s @ pieces_text []"
    by (simp add: final_state_def pieces_text_def)
  then show ?case by (intro exI [of _ "[]"]) simp
next
  case (5 fuel start_func c cs lenght s)
  let ?s1 = "print_callee start_func c lenght s"
  have g1: "graph ?s1 = graph s" using "5.prems"(1) by (simp add: print_callee_graph)
  have cin: "c \<in> set (entry (graph s) start_func)" using "5.prems"(2) by simp
  obtain ps0 where p0: "out ?s1 = out s @ pieces_text ps0" "list_all (piece_ok (graph s)) ps0"
    using print_callee_pieces [OF "5.prems"(1) cin] by blast
  obtain ps1 where p1: "out (final_state (print_call_graph fuel c lenght ?s1)) = out ?s1 @ pieces_text ps1"
      "list_all (piece_ok (graph s)) ps1"
    using "5.IH"(1) g1 by auto
  show ?case
  proof (cases "print_call_graph fuel c lenght ?s1")
    case (Inl e)
    have "out (final_state (print_callees fuel start_func (c # cs) lenght s))
            = out s @ pieces_text (ps0 @ ps1)"
      using Inl p0(1) p1(1) by (simp add: pieces_text_append final_state_def)
    moreover have "list_all (piece_ok (graph s)) (ps0 @ ps1)" using p0(2) p1(2) by simp
    ultimately show ?thesis by blast
  next
    case (Inr s')
    have "graph (final_state (print_call_graph fuel c lenght ?s1)) = graph ?s1"
      by (rule printer_frame(1))
    then have g': "graph s' = graph s" using Inr g1 by (simp add: final_state_def)
    have o': "out s' = out s @ pieces_text (ps0 @ ps1)"
      using Inr p0(1) p1(1) by (simp add: pieces_text_append final_state_def)
    have "\<exists>ps. out (final_state (print_callees fuel start_func cs lenght s')) = out s' @ pieces_text ps
              \<and> list_all (piece_ok (graph s')) ps"
      using "5.IH"(2) [OF Inr] "5.prems" g' by simp
    then obtain ps2 where p2: "out (final_state (print_callees fuel start_func cs lenght s'))
          = out s' @ pieces_text ps2" "list_all (piece_ok (graph s)) ps2"
      using g' by auto
    have "out (final_state (print_callees fuel start_func (c # cs) lenght s))
            = out s @ pieces_text ((ps0 @ ps1) @ ps2)"
      using Inr p2(1) o' by (simp add: pieces_text_append)
    moreover have "list_all (piece_ok (graph s)) ((ps0 @ ps1) @ ps2)"
      using p0(2) p1(2) p2(2) by simp
    ultimately show ?thesis by blast
  qed
qed

text \<open>
  C1 (as the code behaves). The printer keeps no record of the functions on the current
  path and has no mark such as \<open>[recursive]\<close>: whatever the graph, the start function
  and the depth bound, what a run prints is a sequence of admitted pieces, so a callee
  that is already on the path is printed as \<open>-> name()\<close> like any other and entered
  again. In any call graph, when \<open>start\<close> belongs to a set of functions each of which
  has a callee in the set (the functions of a cycle, direct or mutual, form such a set),
  rendering \<open>start\<close> returns for no depth bound: it ends in \<open>RecursionError\<close>. On the
  mutual-recursion graph, what rendering \<open>A\<close> has printed when the error is raised is
  the run of unmarked arrows that name \<open>B\<close> and \<open>A\<close> in turn, one for each level of the
  bound.
\<close>

theorem print_call_graph_cycle_unbounded:
  "(start \<in> C \<and> (\<forall>f\<in>C. \<exists>g\<in>C. Some g \<in> set (entry (graph s) f))
      \<longrightarrow> isl (print_call_graph n (Some start) l s))
   \<and> (\<exists>ps. out (final_state (print_call_graph n c l s)) = out s @ pieces_text ps
             \<and> list_all (piece_ok (graph s)) ps)
   \<and> print_call_graph n (Some ''A'') l \<lparr>graph = mutual, out = printed\<rparr>
       = Inl (RecursionError, \<lparr>graph = mutual, out = printed @ bounce n True\<rparr>)"
proof (intro conjI)
  show "start \<in> C \<and> (\<forall>f\<in>C. \<exists>g\<in>C. Some g \<in> set (entry (graph s) f))
          \<longrightarrow> isl (print_call_graph n (Some start) l s)"
  proof
    assume a: "start \<in> C \<and> (\<forall>f\<in>C. \<exists>g\<in>C. Some g \<in> set (entry (graph s) f))"
    then have trap: "\<forall>f\<in>C. \<exists>g\<in>C. Some g \<in> set (entry (graph s) f)"
      and member: "start \<in> C" by simp_all
    show "isl (print_call_graph n (Some start) l s)"
      by (rule trap_never_returns [OF trap member refl])
  qed
  show "\<exists>ps. out (final_state (print_call_graph n c l s)) = out s @ pieces_text ps
             \<and> list_all (piece_ok (graph s)) ps"
    by (rule printer_pieces(1))
  show "print_call_graph n (Some ''A'') l \<lparr>graph = mutual, out = printed\<rparr>
       = Inl (RecursionError, \<lparr>graph = mutual, out = printed @ bounce n True\<rparr>)"
    using mutual_bounce [of n True l printed] by simp
qed

text \<open>
  Witness for C1: on the mutual-recursion graph the set \<open>{A, B}\<close> is closed in this
  way, and a depth bound of a thousand does not let the rendering of \<open>A\<close> return.
\<close>

theorem print_call_graph_cycle_unbounded_witness:
  "isl (print_call_graph 1000 (Some ''A'') 0 \<lparr>graph = mutual, out = []\<rparr>)"
proof -
  have h: "\<forall>f\<in>{''A'', ''B''}. \<exists>g\<in>{''A'', ''B''}. Some g \<in> set (entry mutual f)"
    by (simp add: entry_def mutual_def)
  then show ?thesis
    using print_call_graph_cycle_unbounded
      [where start = "''A''" and C = "{''A'', ''B''}" and s = "\<lparr>graph = mutual, out = []\<rparr>"
         and n = 1000 and l = 0]
    by simp
qed

text \<open>
  C1 (as stated) fails: on the mutual-recursion graph no depth bound lets the
  rendering of \<open>A\<close> return.
\<close>

theorem print_call_graph_cycle_counterexample:
  "\<not> (\<exists>fuel s'. print_call_graph fuel (Some ''A'') 0 \<lparr>graph = mutual, out = []\<rparr> = Inr s')"
proof
  assume "\<exists>fuel s'. print_call_graph fuel (Some ''A'') 0 \<lparr>graph = mutual, out = []\<rparr> = Inr s'"
  then obtain fuel s' where
    "print_call_graph fuel (Some ''A'') 0 \<lparr>graph = mutual, out = []\<rparr> = Inr s'" by blast
  then show False using mutual_bounce [of fuel True 0 "[]"] by simp
qed

text \<open>
  C9. Rendering leaves the call graph as it was: whatever the start function, the
  indentation and the depth bound, and whether the run returns or raises, the graph
  in the final state is the graph in the initial state. The printer reads an entry of
  the defaultdict only under the membership test, so no key is inserted.
\<close>

theorem print_call_graph_keeps_graph:
  "graph (final_state (print_call_graph fuel start_func lenght s)) = graph s"
  by (rule printer_frame(1))

section \<open>A larger depth bound never changes a run that returned\<close>

lemma printer_fuel_mono:
  "print_call_graph fuel c l s = Inr s' \<Longrightarrow> print_call_graph (fuel + k) c l s = Inr s'"
  "print_callees fuel f cs l s = Inr s' \<Longrightarrow> print_callees (fuel + k) f cs l s = Inr s'"
proof (induction fuel c l s and fuel f cs l s arbitrary: s' and s'
    rule: print_call_graph_print_callees.induct)
  case (1 start_func lenght s)
  then show ?case by simp
next
  case (2 fuel lenght s)
  then show ?case by simp
next
  case (3 fuel start_func lenght s)
  show ?case
  proof (cases "dd_contains (graph s) start_func")
    case True
    obtain vs cg' where g: "dd_getitem (graph s) start_func = (vs, cg')"
      by (cases "dd_getitem (graph s) start_func")
    have "print_callees fuel start_func vs (lenght + (length start_func + 2)) (s\<lparr>graph := cg'\<rparr>) = Inr s'"
      using "3.prems" True g by (simp add: Let_def)
    then have "print_callees (fuel + k) start_func vs (lenght + (length start_func + 2))
                 (s\<lparr>graph := cg'\<rparr>) = Inr s'"
      by (rule "3.IH" [OF refl True g [symmetric]])
    then show ?thesis using True g by (simp add: Let_def)
  next
    case False
    then show ?thesis using "3.prems" by (simp add: Let_def)
  qed
next
  case (4 fuel start_func lenght s)
  then show ?case by simp
next
  case (5 fuel start_func c cs lenght s)
  let ?s1 = "print_callee start_func c lenght s"
  from "5.prems" obtain s'' where
    a: "print_call_graph fuel c lenght ?s1 = Inr s''" and
    b: "print_callees fuel start_func cs lenght s'' = Inr s'"
    by (cases "print_call_graph fuel c lenght ?s1") simp_all
  have "print_call_graph (fuel + k) c lenght ?s1 = Inr s''" using a by (rule "5.IH"(1))
  moreover have "print_callees (fuel + k) start_func cs lenght s'' = Inr s'"
    using a b by (rule "5.IH"(2))
  ultimately show ?case by simp
qed

lemma render_roots_fuel_mono:
  "render_roots fuel rs s = Inr s' \<Longrightarrow> render_roots (fuel + k) rs s = Inr s'"
proof (induction rs arbitrary: s)
  case Nil
  then show ?case by simp
next
  case (Cons r rs)
  let ?s1 = "emit (newline @ r @ ''()'') s"
  from Cons.prems obtain s'' where
    a: "print_call_graph fuel (Some r) 0 ?s1 = Inr s''" and
    b: "render_roots fuel rs s'' = Inr s'"
    by (cases "print_call_graph fuel (Some r) 0 ?s1") simp_all
  have "print_call_graph (fuel + k) (Some r) 0 ?s1 = Inr s''" using a by (rule printer_fuel_mono(1))
  moreover have "render_roots (fuel + k) rs s'' = Inr s'" using b by (rule Cons.IH)
  ultimately show ?case by simp
qed

lemma main_core_fuel_mono:
  assumes "main_core fuel units = Inr m"
  shows "main_core (fuel + k) units = Inr m"
proof -
  let ?p = "process_units units initial_state"
  let ?n = "normalize_leaves ?p"
  let ?roots = "find_root_functions (global_call_graph ?n)"
  let ?s0 = "\<lparr>graph = global_call_graph ?n, out = console ?n @ newline @ ''Call graph:''\<rparr>"
  show ?thesis
  proof (cases "sort (all_functions ?p) = [] \<or> ?roots = []")
    case True
    then show ?thesis using assms by (auto simp add: main_core_def Let_def)
  next
    case False
    with assms obtain s where
      a: "render_roots fuel ?roots ?s0 = Inr s"
      by (cases "render_roots fuel ?roots ?s0") (auto simp add: main_core_def Let_def)
    have "render_roots (fuel + k) ?roots ?s0 = Inr s" using a by (rule render_roots_fuel_mono)
    then show ?thesis using assms a False by (simp add: main_core_def Let_def)
  qed
qed

section \<open>The scenario of three functions\<close>

lemma scenario_run:
  "main_core 4 [scenario_unit] =
     Inr \<lparr>global_call_graph = [(''Widget::run'', [None]), (''helper'', [Some ''Widget::run'']),
                               (''main'', [Some ''helper''])],
          all_functions = [''Widget::run'', ''helper'', ''main''],
          console = ''demo.cpp'' @ newline @ ''args: []'' @ newline @ newline @ ''Call graph:''
                    @ newline @ ''main()-> helper()-> Widget::run()-> None'' @ newline\<rparr>"
  by code_simp

lemma scenario_roots:
  "find_root_functions (global_call_graph (analysed [scenario_unit])) = [''main'']"
  by code_simp

text \<open>
  C7 (as the code behaves). For the unit in which \<open>main\<close> calls \<open>helper\<close>, \<open>helper\<close>
  calls \<open>Widget::run\<close> and \<open>Widget::run\<close> calls nothing, the function set is
  \<open>{main, helper, Widget::run}\<close>, the only root is \<open>main\<close>, and with a depth bound of
  four or more the run prints the whole chain on one line, each single callee inline and the leaf
  closed by \<open>-> None\<close>: \<open>main()-> helper()-> Widget::run()-> None\<close>.
\<close>

theorem scenario_rendering:
  "set (all_functions (process_units [scenario_unit] initial_state)) = {''main'', ''helper'', ''Widget::run''}
   \<and> find_root_functions (global_call_graph (analysed [scenario_unit])) = [''main'']
   \<and> splitlines (console_of (main_core (4 + k) [scenario_unit]))
       = [''demo.cpp'', ''args: []'', [], ''Call graph:'', ''main()-> helper()-> Widget::run()-> None'']"
proof -
  have a: "all_functions (process_units [scenario_unit] initial_state) = [''Widget::run'', ''helper'', ''main'']"
    by code_simp
  have "main_core (4 + k) [scenario_unit] =
     Inr \<lparr>global_call_graph = [(''Widget::run'', [None]), (''helper'', [Some ''Widget::run'']),
                               (''main'', [Some ''helper''])],
          all_functions = [''Widget::run'', ''helper'', ''main''],
          console = ''demo.cpp'' @ newline @ ''args: []'' @ newline @ newline @ ''Call graph:''
                    @ newline @ ''main()-> helper()-> Widget::run()-> None'' @ newline\<rparr>"
    by (rule main_core_fuel_mono [OF scenario_run])
  then have "splitlines (console_of (main_core (4 + k) [scenario_unit]))
       = [''demo.cpp'', ''args: []'', [], ''Call graph:'', ''main()-> helper()-> Widget::run()-> None'']"
    by (simp add: console_of_def splitlines_def)
  then show ?thesis using a scenario_roots by auto
qed

text \<open>
  C7 (as stated) fails: no line of the output is \<open>-> helper()\<close>; the callee follows
  its caller on the same line.
\<close>

theorem scenario_three_lines_counterexample:
  "''-> helper()'' \<notin> set (splitlines (console_of (main_core 4 [scenario_unit])))"
  by code_simp

section \<open>The builder\<close>

lemma build_children_skip:
  "is_system_header child \<Longrightarrow>
   build_children (pre @ child # post) current_func st = build_children (pre @ post) current_func st"
proof (induction pre arbitrary: st)
  case Nil
  then show ?case by (cases st) simp
next
  case (Cons a pre)
  then show ?case by (cases st) (simp add: Let_def)
qed

lemma enter_node_children:
  "enter_node (Node k sp lf par ty cs) cf fs = enter_node (Node k sp lf par ty cs') cf fs"
  by (simp add: enter_node_def)

text \<open>
  C10. A child for which \<open>is_system_header\<close> holds (no file, or a path that starts with
  \<open>/usr/include\<close> or \<open>/usr/lib\<close> or contains \<open>/lib/gcc\<close>) is skipped with its whole
  subtree: the builder returns for a node the same graph and the same function set as
  for the node without that child, so no declaration inside the child is registered and
  no call inside it adds an edge.
\<close>

theorem system_child_skipped:
  assumes "is_system_header child"
  shows "build_call_graph (Node k sp lf par ty (pre @ child # post)) current_func st
       = build_call_graph (Node k sp lf par ty (pre @ post)) current_func st"
proof (cases st)
  case (Pair cg fs)
  show ?thesis unfolding Pair
    by (simp add: build_children_skip [OF assms]
        enter_node_children [of k sp lf par ty "pre @ child # post" current_func fs "pre @ post"]
        split: prod.splits)
qed

text \<open>Witness for C10: the declaration of \<open>printf\<close> in a system header leaves no trace.\<close>

theorem system_child_skipped_witness:
  "is_system_header system_child
   \<and> build_call_graph (Node OTHER_KIND ''demo.cpp'' None [] [] [system_child, user_function])
         None ([], []) = ([], [''main''])"
proof -
  have h: "is_system_header system_child" by code_simp
  have "build_call_graph (Node OTHER_KIND ''demo.cpp'' None [] [] ([] @ [user_function]))
          None ([], []) = ([], [''main''])"
    by code_simp
  then show ?thesis
    using h system_child_skipped [OF h, of OTHER_KIND "''demo.cpp''" None "[]" "[]" "[]"
        "[user_function]" None "([], [])"]
    by simp
qed

text \<open>
  C6 (as the code behaves). On entering a node the context becomes
  \<open>EnclosingType::MethodName\<close> for a method declaration, the bare name for a function
  declaration, and stays as it was for every other kind; the context after the update is
  added to the function set when it is a non-empty string, and is not added when it is
  \<open>None\<close> or empty. The children are walked with the updated context.
\<close>

theorem enter_node_dispatch:
  "fst (enter_node n current_func fs) =
      (case kind n of
         CXX_METHOD \<Rightarrow> Some (semantic_parent_spelling n @ ''::'' @ spelling n)
       | FUNCTION_DECL \<Rightarrow> Some (spelling n)
       | _ \<Rightarrow> current_func)
   \<and> set (snd (enter_node n current_func fs))
       = set fs \<union> {name. fst (enter_node n current_func fs) = Some name \<and> name \<noteq> []}
   \<and> build_call_graph n current_func (cg, fs)
       = build_children (get_children n) (fst (enter_node n current_func fs))
           (cg, snd (enter_node n current_func fs))"
  by (cases n; cases "kind n")
     (auto simp add: enter_node_def kind_truthy_def set_add_def Let_def split: option.splits)

text \<open>Witness for C6: a method declaration met inside \<open>helper\<close>.\<close>

theorem enter_node_dispatch_witness:
  "fst (enter_node method_node (Some ''helper'') [''helper'']) = Some ''Widget::run''
   \<and> set (snd (enter_node method_node (Some ''helper'') [''helper''])) = {''helper'', ''Widget::run''}"
  using enter_node_dispatch [of method_node "Some ''helper''" "[''helper'']" "[]"]
  by (auto simp add: method_node_def)

text \<open>
  C6 (as stated) fails on the registration: a function declaration with an empty
  spelling sets the context to the empty string, which line 120 does not register.
\<close>

theorem enter_node_registration_counterexample:
  "enter_node nameless_function None [] = (Some [], [])
   \<and> build_call_graph nameless_function None ([], []) = ([], [])"
  by code_simp

lemma map_of_dd_append: "map_of (dd_append cg k v) = (map_of cg)(k \<mapsto> entry cg k @ [v])"
  by (rule ext)
     (simp add: dd_append_def dd_getitem_def entry_def update_conv' map_add_def split: option.splits)

lemma entry_dd_append: "entry (dd_append cg k v) k' = (if k' = k then entry cg k @ [v] else entry cg k')"
  by (simp add: entry_def map_of_dd_append)

lemma map_of_dd_append_other: "k' \<noteq> k \<Longrightarrow> map_of (dd_append cg k v) k' = map_of cg k'"
  by (simp add: map_of_dd_append)

lemma entry_fold_append:
  "entry (fold (\<lambda>x acc. dd_append acc k (f x)) xs cg) k' = (if k' = k then entry cg k @ map f xs else entry cg k')"
  by (induction xs arbitrary: cg) (simp_all add: entry_dd_append)

lemma map_of_fold_append_other:
  "k' \<noteq> k \<Longrightarrow> map_of (fold (\<lambda>x acc. dd_append acc k (f x)) xs cg) k' = map_of cg k'"
  by (induction xs arbitrary: cg) (simp_all add: map_of_dd_append_other)

lemma record_call_entry:
  "entry (record_call name child cg) k = (if k = name then entry cg name @ call_edges child else entry cg k)"
  by (simp add: record_call_def call_edges_def entry_fold_append entry_dd_append split: option.splits)

lemma record_call_other:
  "k \<noteq> name \<Longrightarrow> map_of (record_call name child cg) k = map_of cg k"
  by (simp add: record_call_def map_of_fold_append_other map_of_dd_append_other split: option.splits)

text \<open>
  C3. Every call expression under a tracked function should contribute exactly one
  edge. The code at three inputs: a call through the implicit object, whose member
  reference has no child, records no edge, so \<open>W::f\<close> gets no entry at all; a member
  reference with two children records two edges for the one call; a call without a
  member reference, which takes the \<open>else\<close> of the loop, records its one edge.
\<close>

theorem member_call_edges_failing_input:
  "build_call_graph implicit_this_ast None ([], []) = ([], [''W::f''])
   \<and> build_call_graph two_operand_ast None ([], [])
       = ([(''f'', [Some ''P::g'', Some ''Q::g''])], [''f''])
   \<and> build_call_graph (ast_calling ''x'') None ([], []) = ([(''f'', [Some ''x''])], [''f''])"
  by code_simp

section \<open>The merge of the units\<close>

lemma set_set_add: "set (set_add s x) = insert x (set s)"
  by (auto simp add: set_add_def)

lemma set_set_update: "set (set_update s xs) = set s \<union> set xs"
  unfolding set_update_def
  by (induction xs arbitrary: s) (auto simp add: set_set_add)

lemma entry_after_getitem: "entry (snd (dd_getitem u k)) k' = entry u k'"
  by (simp add: dd_getitem_def entry_def map_add_def split: option.splits)

lemma merge_step_eq:
  "merge_step f (g, u) = (dd_setitem g f (entry u f), snd (dd_getitem u f))"
  using dd_getitem_entry [of u f]
  by (cases "dd_getitem u f") (simp add: merge_step_def)

lemma merge_fold_lookup:
  "map_of (fst (fold merge_step fs (g, u))) k
     = (if k \<in> set fs then Some (entry u k) else map_of g k)"
proof (induction fs arbitrary: g u)
  case Nil
  show ?case by simp
next
  case (Cons f fs)
  have "map_of (fst (fold merge_step fs (dd_setitem g f (entry u f), snd (dd_getitem u f)))) k
      = (if k \<in> set fs then Some (entry (snd (dd_getitem u f)) k)
         else map_of (dd_setitem g f (entry u f)) k)"
    by (rule Cons.IH)
  then show ?case
    by (simp add: merge_step_eq entry_after_getitem dd_setitem_def update_conv')
qed

lemma merge_unit_graph:
  "global_call_graph (merge_unit ug fs m) = fst (fold merge_step fs (global_call_graph m, ug))"
  by (simp add: merge_unit_def merge_step_def split: prod.splits)

lemma merge_unit_functions:
  "all_functions (merge_unit ug fs m) = set_update (all_functions m) fs"
  by (simp add: merge_unit_def split: prod.splits)

lemma merge_unit_lookup:
  "map_of (global_call_graph (merge_unit ug fs m)) k
     = (if k \<in> set fs then Some (entry ug k) else map_of (global_call_graph m) k)"
  by (simp only: merge_unit_graph merge_fold_lookup)

lemma process_unit_parsed:
  "parsed u = Inr cursor \<Longrightarrow> build_call_graph cursor None ([], []) = (ug, fs) \<Longrightarrow>
   process_unit u m = merge_unit ug fs (m\<lparr>console := console m @ cpp_file u @ newline @ flags_log u\<rparr>)"
  by (simp add: process_unit_def Let_def)



section \<open>Leaf normalization and roots\<close>

lemma keys_dom: "fst ` set (cg :: call_graph) = dom (map_of cg)"
  by (simp add: dom_map_of_conv_image_fst)

lemma merge_unit_keys:
  "fst ` set (global_call_graph (merge_unit ug fs m)) = fst ` set (global_call_graph m) \<union> set fs"
  unfolding keys_dom
  by (auto simp add: merge_unit_lookup dom_def split: if_splits)

lemma process_unit_keys:
  assumes "fst ` set (global_call_graph m) = set (all_functions m)"
  shows "fst ` set (global_call_graph (process_unit u m)) = set (all_functions (process_unit u m))"
proof (cases "parsed u")
  case (Inl e)
  then show ?thesis using assms by (simp add: process_unit_def Let_def)
next
  case (Inr cursor)
  obtain ug fs where b: "build_call_graph cursor None ([], []) = (ug, fs)"
    by (cases "build_call_graph cursor None ([], [])")
  show ?thesis
    using assms
    by (simp add: process_unit_parsed [OF Inr b] merge_unit_keys merge_unit_functions set_set_update)
qed

lemma process_units_keys:
  "fst ` set (global_call_graph m) = set (all_functions m) \<Longrightarrow>
   fst ` set (global_call_graph (process_units us m)) = set (all_functions (process_units us m))"
proof (induction us arbitrary: m)
  case Nil
  then show ?case by (simp add: process_units_def)
next
  case (Cons u us)
  have "fst ` set (global_call_graph (process_unit u m)) = set (all_functions (process_unit u m))"
    using Cons.prems by (rule process_unit_keys)
  then have "fst ` set (global_call_graph (process_units us (process_unit u m)))
           = set (all_functions (process_units us (process_unit u m)))"
    by (rule Cons.IH)
  then show ?case by (simp add: process_units_def)
qed

lemma initial_keys: "fst ` set (global_call_graph initial_state) = set (all_functions initial_state)"
  by (simp add: initial_state_def)

lemma map_of_normalize_step:
  "map_of (normalize_step f g) = (map_of g)(f \<mapsto> (if entry g f = [] then [None] else entry g f))"
proof (cases "map_of g f")
  case None
  then show ?thesis
    by (simp add: normalize_step_def dd_getitem_def map_of_dd_append entry_def map_add_def fun_eq_iff
        split: option.splits)
next
  case (Some vs)
  then show ?thesis
    by (auto simp add: normalize_step_def dd_getitem_def map_of_dd_append entry_def fun_eq_iff)
qed

lemma entry_normalize_step:
  "entry (normalize_step f g) k
     = (if k = f then (if entry g f = [] then [None] else entry g f) else entry g k)"
  by (simp add: entry_def [of "normalize_step f g"] map_of_normalize_step) (simp add: entry_def)

lemma normalize_fold_lookup:
  "map_of (fold normalize_step fs g) k
     = (if k \<in> set fs then Some (if entry g k = [] then [None] else entry g k) else map_of g k)"
proof (induction fs arbitrary: g)
  case Nil
  show ?case by simp
next
  case (Cons f fs)
  have "map_of (fold normalize_step fs (normalize_step f g)) k
      = (if k \<in> set fs
         then Some (if entry (normalize_step f g) k = [] then [None] else entry (normalize_step f g) k)
         else map_of (normalize_step f g) k)"
    by (rule Cons.IH)
  then show ?case
    by (simp add: entry_normalize_step map_of_normalize_step)
qed

lemma normalize_leaves_lookup:
  "map_of (global_call_graph (normalize_leaves m)) k
     = (if k \<in> set (all_functions m)
        then Some (if entry (global_call_graph m) k = [] then [None] else entry (global_call_graph m) k)
        else map_of (global_call_graph m) k)"
  by (simp add: normalize_leaves_def normalize_fold_lookup)

lemma normalize_leaves_functions: "all_functions (normalize_leaves m) = all_functions m"
  by (simp add: normalize_leaves_def)

lemma normalize_leaves_keys:
  "fst ` set (global_call_graph (normalize_leaves m))
     = fst ` set (global_call_graph m) \<union> set (all_functions m)"
  unfolding keys_dom
  by (auto simp add: normalize_leaves_lookup dom_def split: if_splits)

text \<open>
  The global graph stays a dictionary: its keys are pairwise distinct after any list of
  units and after the normalization.
\<close>

lemma distinct_dd_setitem:
  "distinct (map fst cg) \<Longrightarrow> distinct (map fst (dd_setitem cg k v))"
  by (simp add: dd_setitem_def distinct_update)

lemma distinct_dd_getitem:
  "distinct (map fst cg) \<Longrightarrow> distinct (map fst (snd (dd_getitem cg k)))"
  by (auto simp add: dd_getitem_def map_of_eq_None_iff split: option.splits)

lemma distinct_dd_append:
  "distinct (map fst cg) \<Longrightarrow> distinct (map fst (dd_append cg k v))"
  using distinct_dd_getitem [of cg k]
  by (cases "dd_getitem cg k") (simp add: dd_append_def distinct_update)

lemma distinct_merge_fold:
  "distinct (map fst g) \<Longrightarrow> distinct (map fst (fst (fold merge_step fs (g, u))))"
proof (induction fs arbitrary: g u)
  case Nil
  then show ?case by simp
next
  case (Cons f fs)
  have "distinct (map fst (dd_setitem g f (entry u f)))"
    using Cons.prems by (rule distinct_dd_setitem)
  then have "distinct (map fst (fst (fold merge_step fs
                 (dd_setitem g f (entry u f), snd (dd_getitem u f)))))"
    by (rule Cons.IH)
  then show ?case by (simp add: merge_step_eq)
qed

lemma distinct_process_unit:
  assumes "distinct (map fst (global_call_graph m))"
  shows "distinct (map fst (global_call_graph (process_unit u m)))"
proof (cases "parsed u")
  case (Inl e)
  then show ?thesis using assms by (simp add: process_unit_def Let_def)
next
  case (Inr cursor)
  obtain ug fs where b: "build_call_graph cursor None ([], []) = (ug, fs)"
    by (cases "build_call_graph cursor None ([], [])")
  show ?thesis
    using assms by (simp add: process_unit_parsed [OF Inr b] merge_unit_graph distinct_merge_fold)
qed

lemma distinct_process_units:
  "distinct (map fst (global_call_graph m)) \<Longrightarrow>
   distinct (map fst (global_call_graph (process_units us m)))"
proof (induction us arbitrary: m)
  case Nil
  then show ?case by (simp add: process_units_def)
next
  case (Cons u us)
  have "distinct (map fst (global_call_graph (process_unit u m)))"
    using Cons.prems by (rule distinct_process_unit)
  then have "distinct (map fst (global_call_graph (process_units us (process_unit u m))))"
    by (rule Cons.IH)
  then show ?case by (simp add: process_units_def)
qed

lemma distinct_normalize_step:
  "distinct (map fst g) \<Longrightarrow> distinct (map fst (normalize_step f g))"
  using distinct_dd_getitem [of g f] distinct_dd_append [of "snd (dd_getitem g f)" f None]
  by (cases "dd_getitem g f") (simp add: normalize_step_def)

lemma distinct_normalize_fold:
  "distinct (map fst g) \<Longrightarrow> distinct (map fst (fold normalize_step fs g))"
  by (induction fs arbitrary: g) (simp_all add: distinct_normalize_step)

lemma analysed_distinct: "distinct (map fst (global_call_graph (analysed us)))"
proof -
  have "distinct (map fst (global_call_graph (process_units us initial_state)))"
    by (rule distinct_process_units) (simp add: initial_state_def)
  then show ?thesis by (simp add: analysed_def normalize_leaves_def distinct_normalize_fold)
qed

text \<open>
  C5. After all units are processed, every member of the function set has an entry in
  the global graph; the normalization turns an empty entry into \<open>[None]\<close> and leaves a
  non-empty entry as it is, so that afterwards every member has a non-empty entry.
\<close>

theorem leaves_normalized:
  assumes "f \<in> set (all_functions (process_units us initial_state))"
  shows "\<exists>vs. map_of (global_call_graph (process_units us initial_state)) f = Some vs
            \<and> map_of (global_call_graph (normalize_leaves (process_units us initial_state))) f
                = Some (if vs = [] then [None] else vs)
            \<and> (if vs = [] then [None] else vs) \<noteq> []"
proof -
  let ?m = "process_units us initial_state"
  have "fst ` set (global_call_graph ?m) = set (all_functions ?m)"
    by (rule process_units_keys [OF initial_keys])
  with assms have "f \<in> dom (map_of (global_call_graph ?m))"
    by (simp add: keys_dom)
  then obtain vs where vs: "map_of (global_call_graph ?m) f = Some vs" by blast
  then have "entry (global_call_graph ?m) f = vs" by (simp add: entry_def)
  then show ?thesis using vs assms by (simp add: normalize_leaves_lookup)
qed

text \<open>Witness for C5: \<open>Widget::run\<close> of the scenario has no callee.\<close>

theorem leaves_normalized_witness:
  "''Widget::run'' \<in> set (all_functions (process_units [scenario_unit] initial_state))
   \<and> map_of (global_call_graph (process_units [scenario_unit] initial_state)) ''Widget::run'' = Some []
   \<and> map_of (global_call_graph (normalize_leaves (process_units [scenario_unit] initial_state)))
        ''Widget::run'' = Some [None]"
proof -
  have h: "''Widget::run'' \<in> set (all_functions (process_units [scenario_unit] initial_state))"
    by code_simp
  have v: "map_of (global_call_graph (process_units [scenario_unit] initial_state)) ''Widget::run''
           = Some []"
    by code_simp
  show ?thesis using h v leaves_normalized [OF h] by auto
qed

lemma set_all_called_fold:
  "set (fold (\<lambda>callees acc. set_update acc callees) xs acc) = set acc \<union> \<Union> (set ` set xs)"
  by (induction xs arbitrary: acc) (auto simp add: set_set_update)

lemma set_all_called: "set (all_called cg) = \<Union> (set ` snd ` set cg)"
  by (simp add: all_called_def set_all_called_fold)

lemma set_find_root_functions:
  "set (find_root_functions cg) = fst ` set cg - {f. Some f \<in> \<Union> (set ` snd ` set cg)}"
  by (auto simp add: find_root_functions_def set_all_called)

lemma analysed_keys:
  "fst ` set (global_call_graph (analysed us)) = set (all_functions (analysed us))"
  using process_units_keys [OF initial_keys, of us]
  by (simp add: analysed_def normalize_leaves_keys normalize_leaves_functions)

text \<open>
  C2. On the merged and normalized graph of any list of units, the roots are exactly
  the members of the function set that occur in no edge list of the graph.
\<close>

theorem roots_are_uncalled_functions:
  "set (find_root_functions (global_call_graph (analysed us)))
     = set (all_functions (analysed us))
       - {f. Some f \<in> \<Union> (set ` snd ` set (global_call_graph (analysed us)))}"
  by (simp only: set_find_root_functions analysed_keys)

text \<open>Witness for C2: in the scenario only \<open>main\<close> is never called.\<close>

theorem roots_are_uncalled_functions_witness:
  "set (find_root_functions (global_call_graph (analysed [scenario_unit])))
     = {''Widget::run'', ''helper'', ''main''} - {''Widget::run'', ''helper''}"
proof -
  have a: "all_functions (analysed [scenario_unit]) = [''Widget::run'', ''helper'', ''main'']"
    by code_simp
  have g: "global_call_graph (analysed [scenario_unit])
           = [(''Widget::run'', [None]), (''helper'', [Some ''Widget::run'']), (''main'', [Some ''helper''])]"
    by code_simp
  have "{f. Some f \<in> \<Union> (set ` snd ` set (global_call_graph (analysed [scenario_unit])))}
        = {''Widget::run'', ''helper''}"
    unfolding g by auto
  then show ?thesis
    using roots_are_uncalled_functions [of "[scenario_unit]"] a by simp
qed

section \<open>A unit that fails to parse\<close>

lemma accumulators_merge:
  assumes "accumulators m = accumulators m'"
  shows "accumulators (merge_unit ug fs m) = accumulators (merge_unit ug fs m')"
proof -
  from assms have "global_call_graph m = global_call_graph m'" "all_functions m = all_functions m'"
    by (simp_all add: accumulators_def)
  then show ?thesis by (simp only: accumulators_def merge_unit_graph merge_unit_functions)
qed

lemma accumulators_console: "accumulators (m\<lparr>console := x\<rparr>) = accumulators m"
  by (simp add: accumulators_def)

lemma accumulators_process_unit:
  assumes "accumulators m = accumulators m'"
  shows "accumulators (process_unit u m) = accumulators (process_unit u m')"
proof (cases "parsed u")
  case (Inl e)
  then show ?thesis using assms by (simp add: process_unit_def Let_def accumulators_console)
next
  case (Inr cursor)
  obtain ug fs where b: "build_call_graph cursor None ([], []) = (ug, fs)"
    by (cases "build_call_graph cursor None ([], [])")
  let ?m1 = "m\<lparr>console := console m @ cpp_file u @ newline @ flags_log u\<rparr>"
  let ?m1' = "m'\<lparr>console := console m' @ cpp_file u @ newline @ flags_log u\<rparr>"
  have "accumulators ?m1 = accumulators ?m1'"
    by (simp only: accumulators_console assms)
  then have "accumulators (merge_unit ug fs ?m1) = accumulators (merge_unit ug fs ?m1')"
    by (rule accumulators_merge)
  moreover have "process_unit u m = merge_unit ug fs ?m1"
    using Inr b by (simp add: process_unit_def Let_def)
  moreover have "process_unit u m' = merge_unit ug fs ?m1'"
    using Inr b by (simp add: process_unit_def Let_def)
  ultimately show ?thesis by simp
qed

lemma accumulators_process_units:
  "accumulators m = accumulators m' \<Longrightarrow>
   accumulators (process_units us m) = accumulators (process_units us m')"
proof (induction us arbitrary: m m')
  case Nil
  then show ?case by (simp add: process_units_def)
next
  case (Cons u us)
  have "accumulators (process_unit u m) = accumulators (process_unit u m')"
    using Cons.prems by (rule accumulators_process_unit)
  then have "accumulators (process_units us (process_unit u m))
           = accumulators (process_units us (process_unit u m'))"
    by (rule Cons.IH)
  then show ?case by (simp add: process_units_def)
qed

lemma accumulators_parse_failure:
  "parsed u = Inl e \<Longrightarrow> accumulators (process_unit u m) = accumulators m"
  by (simp add: process_unit_def accumulators_def Let_def)

lemma process_unit_lookup:
  "map_of (global_call_graph (process_unit u m)) f = last_writer [u] f (map_of (global_call_graph m) f)"
proof (cases "parsed u")
  case (Inl e)
  then show ?thesis by (simp add: process_unit_def Let_def)
next
  case (Inr cursor)
  obtain ug fs where b: "build_call_graph cursor None ([], []) = (ug, fs)"
    by (cases "build_call_graph cursor None ([], [])")
  show ?thesis using Inr b
    by (simp add: process_unit_parsed [OF Inr b] merge_unit_lookup)
qed

lemma process_unit_functions:
  "set (all_functions (process_unit u m)) = set (all_functions m) \<union> set (declared_functions [u])"
proof (cases "parsed u")
  case (Inl e)
  then show ?thesis by (simp add: process_unit_def Let_def declared_functions_def)
next
  case (Inr cursor)
  obtain ug fs where b: "build_call_graph cursor None ([], []) = (ug, fs)"
    by (cases "build_call_graph cursor None ([], [])")
  show ?thesis using Inr b
    by (simp add: process_unit_parsed [OF Inr b] merge_unit_functions set_set_update
        declared_functions_def)
qed

lemma process_units_lookup:
  "map_of (global_call_graph (process_units us m)) f = last_writer us f (map_of (global_call_graph m) f)"
proof (induction us arbitrary: m)
  case Nil
  show ?case by (simp add: process_units_def)
next
  case (Cons u us)
  have "map_of (global_call_graph (process_units us (process_unit u m))) f
      = last_writer us f (map_of (global_call_graph (process_unit u m)) f)"
    by (rule Cons.IH)
  then show ?case using process_unit_lookup [of u m f] by (simp add: process_units_def)
qed

lemma process_units_functions:
  "set (all_functions (process_units us m)) = set (all_functions m) \<union> set (declared_functions us)"
proof (induction us arbitrary: m)
  case Nil
  show ?case by (simp add: process_units_def declared_functions_def)
next
  case (Cons u us)
  have "set (all_functions (process_units us (process_unit u m)))
      = set (all_functions (process_unit u m)) \<union> set (declared_functions us)"
    by (rule Cons.IH)
  then show ?case using process_unit_functions [of u m]
    by (auto simp add: process_units_def declared_functions_def)
qed

lemma last_writer_append:
  "last_writer (xs @ ys) f acc = last_writer ys f (last_writer xs f acc)"
  by (induction xs arbitrary: acc) simp_all

lemma declared_functions_append:
  "declared_functions (xs @ ys) = declared_functions xs @ declared_functions ys"
  by (simp add: declared_functions_def)

text \<open>
  C8. When the AST provider fails on a unit, the loop prints the path of the unit and
  the message and leaves the global graph and the function set as they were. The loop
  goes on with every other unit: after the whole list the function set is the initial
  one joined with the functions declared by the units before and after the failed one,
  the entry of each function is the one the last of those units that declares it has
  written, and both accumulators are those of the list without the failed unit.
\<close>

theorem parse_failure_skips_unit:
  assumes "parsed u = Inl e"
  shows "console (process_unit u m)
           = console m @ cpp_file u @ newline @ flags_log u
               @ ''Error parsing '' @ cpp_file u @ '': '' @ e @ newline
         \<and> accumulators (process_unit u m) = accumulators m
         \<and> set (all_functions (process_units (before @ u # after) m))
             = set (all_functions m) \<union> set (declared_functions before)
                 \<union> set (declared_functions after)
         \<and> map_of (global_call_graph (process_units (before @ u # after) m)) f
             = last_writer after f (last_writer before f (map_of (global_call_graph m) f))
         \<and> accumulators (process_units (before @ u # after) m)
             = accumulators (process_units (before @ after) m)"
proof -
  have "accumulators (process_unit u (process_units before m)) = accumulators (process_units before m)"
    by (rule accumulators_parse_failure [OF assms])
  then have "accumulators (process_units after (process_unit u (process_units before m)))
        = accumulators (process_units after (process_units before m))"
    by (rule accumulators_process_units)
  then have same: "accumulators (process_units (before @ u # after) m)
             = accumulators (process_units (before @ after) m)"
    by (simp add: process_units_def)
  have printed: "console (process_unit u m)
           = console m @ cpp_file u @ newline @ flags_log u
               @ ''Error parsing '' @ cpp_file u @ '': '' @ e @ newline"
    using assms by (simp add: process_unit_def Let_def)
  have du: "declared_functions [u] = []" using assms by (simp add: declared_functions_def)
  have "declared_functions (before @ u # after) = declared_functions before @ declared_functions after"
    using declared_functions_append [of before "[u] @ after"] declared_functions_append [of "[u]" after] du
    by simp
  then have fs: "set (all_functions (process_units (before @ u # after) m))
             = set (all_functions m) \<union> set (declared_functions before)
                 \<union> set (declared_functions after)"
    by (simp add: process_units_functions Un_assoc)
  have "last_writer (before @ u # after) f acc = last_writer after f (last_writer before f acc)" for acc
    using assms by (simp add: last_writer_append)
  then have lw: "map_of (global_call_graph (process_units (before @ u # after) m)) f
             = last_writer after f (last_writer before f (map_of (global_call_graph m) f))"
    by (simp add: process_units_lookup)
  show ?thesis using printed accumulators_parse_failure [OF assms] fs lw same by simp
qed

text \<open>
  Witness for C8: a unit that fails between two units that parse. The message names
  the unit, and the accumulators hold what the two other units give: \<open>f\<close> with the edge
  of the later one.
\<close>

theorem parse_failure_skips_unit_witness:
  "parsed broken_unit = Inl ''Error parsing translation unit.''
   \<and> console (process_unit broken_unit initial_state)
       = ''broken.cpp'' @ newline @ ''args: []'' @ newline
           @ ''Error parsing broken.cpp: Error parsing translation unit.'' @ newline
   \<and> accumulators (process_units [unit_calling ''x'', broken_unit, unit_calling ''y''] initial_state)
       = ([(''f'', [Some ''y''])], [''f''])"
proof -
  have h: "parsed broken_unit = Inl ''Error parsing translation unit.''"
    by (simp add: broken_unit_def)
  have c: "console initial_state @ cpp_file broken_unit @ newline @ flags_log broken_unit
             @ ''Error parsing '' @ cpp_file broken_unit @ '': ''
             @ ''Error parsing translation unit.'' @ newline
           = ''broken.cpp'' @ newline @ ''args: []'' @ newline
               @ ''Error parsing broken.cpp: Error parsing translation unit.'' @ newline"
    by (simp add: initial_state_def broken_unit_def)
  have v: "accumulators (process_units ([unit_calling ''x''] @ [unit_calling ''y'']) initial_state)
           = ([(''f'', [Some ''y''])], [''f''])"
    by code_simp
  show ?thesis
    using h c v parse_failure_skips_unit [OF h, of initial_state "[unit_calling ''x'']"
        "[unit_calling ''y'']" "''f''"]
    by simp
qed

end
